theory Spec2Isabelle
  imports Complex_Main "HOL-Library.Word" "HOL-Library.Signed_Division"
begin

section \<open>The audio pacing and mixing unit of the emulator (src/audio.c)\<close>

text \<open>
  The unit keeps its whole state in file-level variables. They become the fields of one
  record that every operation takes and returns. C \<^verbatim>\<open>int\<close> variables are modelled as
  \<^typ>\<open>int\<close>; where a sum or product of in-range operands can leave the 32-bit range
  (the two accumulations of \<^verbatim>\<open>audio_render\<close>) the two's-complement wrap-around is
  written out with \<open>int32\<close>. C division truncates toward zero: it is \<open>sdiv\<close>.
\<close>

subsection \<open>Constants and machine arithmetic\<close>

type_synonym sample = "16 word"   \<comment> \<open>\<^verbatim>\<open>int16_t\<close>, read with \<^const>\<open>sint\<close>\<close>

text \<open>The value of the native build (line 20); the Emscripten build has 1024.\<close>

definition SAMPLES_PER_BUFFER :: int where
  "SAMPLES_PER_BUFFER = 256"

definition int32 :: "int \<Rightarrow> int" where
  "int32 x = (x + 2147483648) mod 4294967296 - 2147483648"

text \<open>The number of \<^verbatim>\<open>int16_t\<close> elements of every local frame array and every slot:
  \<^verbatim>\<open>2 * SAMPLES_PER_BUFFER\<close>.\<close>

definition frame_len :: nat where
  "frame_len = nat (2 * SAMPLES_PER_BUFFER)"

subsection \<open>State\<close>

text \<open>What the unit prints on the error stream.\<close>

datatype report =
    CannotAllocate
  | OpenAudioDeviceFailed
  | SizeMismatch int int   \<comment> \<open>expected, got\<close>

text \<open>\<^verbatim>\<open>exit(status)\<close>: the process ends; what was printed until then is kept.\<close>

datatype error = Exit int "report list"

text \<open>
  \<open>buffers\<close> is the table of slots; the empty list stands for the \<^verbatim>\<open>NULL\<close> table.
  \<open>chips\<close> is the state of the three sound sources, which the unit only passes on.
  \<open>err_stream\<close> is what has been printed on the error stream.
  \<open>renders\<close> is an auxiliary counter, not a program variable: it counts the passes
  through the body of the loop of \<^verbatim>\<open>audio_render\<close>, each of which asks the three
  sources for one frame.
\<close>

record 'c state =
  audio_dev :: nat
  vera_clks :: int
  cpu_clks :: int
  buffers :: "sample list list"
  rdidx :: int
  wridx :: int
  buf_cnt :: int
  num_bufs :: int
  chips :: 'c
  err_stream :: "report list"
  renders :: nat

text \<open>The static initialisers; \<open>c\<close> is the state of the sources at program start.\<close>

definition initial :: "'c \<Rightarrow> 'c state" where
  "initial c = \<lparr> audio_dev = 0, vera_clks = 0, cpu_clks = 0, buffers = [],
      rdidx = 0, wridx = 0, buf_cnt = 0, num_bufs = 0, chips = c,
      err_stream = [], renders = 0 \<rparr>"

subsection \<open>External collaborators\<close>

text \<open>
  The three sources (\<^verbatim>\<open>psg_render\<close>, \<^verbatim>\<open>pcm_render\<close>, \<^verbatim>\<open>YM_stream_update\<close>) fill a
  local array and change their own state; \<open>YM_start\<close> is \<^verbatim>\<open>YM_Create\<close> followed by
  \<^verbatim>\<open>YM_init\<close>. They are parameters of the model.
\<close>

record 'c sources =
  psg_render :: "'c \<Rightarrow> sample list \<times> 'c"
  pcm_render :: "'c \<Rightarrow> sample list \<times> 'c"
  YM_stream_update :: "'c \<Rightarrow> sample list \<times> 'c"
  YM_start :: "'c \<Rightarrow> 'c"

text \<open>
  The host at one call of \<^verbatim>\<open>audio_init\<close>: whether the \<open>k\<close>-th \<^verbatim>\<open>malloc\<close> of the call
  succeeds (\<open>0\<close> is the table, \<open>i + 1\<close> is slot \<open>i\<close>), the indeterminate contents of
  fresh memory (sample \<open>j\<close> of slot \<open>i\<close>), and the identifier that
  \<^verbatim>\<open>SDL_OpenAudioDevice\<close> returns for a device name (\<open>0\<close> on failure).
\<close>

record host =
  malloc_ok :: "nat \<Rightarrow> bool"
  fresh :: "nat \<Rightarrow> nat \<Rightarrow> sample"
  open_device :: "string option \<Rightarrow> nat"

subsection \<open>audio_callback\<close>

text \<open>
  The output region is an array of native 16-bit samples (\<^verbatim>\<open>AUDIO_S16SYS\<close>); \<open>len\<close>
  counts bytes, two per sample. \<^verbatim>\<open>memset\<close> and \<^verbatim>\<open>memcpy\<close> act on the first
  \<open>len div 2\<close> samples of the region.
\<close>

definition memset_zero :: "sample list \<Rightarrow> int \<Rightarrow> sample list" where
  "memset_zero stream len =
     replicate (nat (len div 2)) 0 @ drop (nat (len div 2)) stream"

definition memcpy :: "sample list \<Rightarrow> sample list \<Rightarrow> int \<Rightarrow> sample list" where
  "memcpy stream src len =
     take (nat (len div 2)) src @ drop (nat (len div 2)) stream"

definition expected_len :: int where
  "expected_len = 2 * SAMPLES_PER_BUFFER * 2"

definition audio_callback ::
  "'c state \<Rightarrow> sample list \<Rightarrow> int \<Rightarrow> error + ('c state \<times> sample list)" where
  "audio_callback st stream len =
     (if audio_dev st = 0 then Inr (st, stream)
      else if len \<noteq> expected_len then
        Inr (st\<lparr>err_stream := err_stream st @ [SizeMismatch expected_len len]\<rparr>, stream)
      else if buf_cnt st = 0 then Inr (st, memset_zero stream len)
      else
        Inr (st\<lparr>rdidx := (if rdidx st + 1 = num_bufs st then 0 else rdidx st + 1),
                 buf_cnt := buf_cnt st - 1\<rparr>,
             memcpy stream (buffers st ! nat (rdidx st)) len))"

subsection \<open>audio_close and audio_init\<close>

definition audio_close :: "'c state \<Rightarrow> 'c state" where
  "audio_close st =
     (if audio_dev st = 0 then st
      else st\<lparr>audio_dev := 0, buffers := []\<rparr>)"

text \<open>Lines 71 to 77: the number of slots.\<close>

definition set_num_bufs :: "int \<Rightarrow> int" where
  "set_num_bufs num_audio_buffers =
     (let n = num_audio_buffers;
          n = (if n < 3 then 3 else n);
          n = (if n > 1024 then 1024 else n)
      in n)"

definition audio_init ::
  "'c sources \<Rightarrow> host \<Rightarrow> 'c state \<Rightarrow> string option \<Rightarrow> int \<Rightarrow> error + 'c state" where
  "audio_init x h st0 dev_name num_audio_buffers =
     (let st = (if audio_dev st0 > 0 then audio_close st0 else st0) in
      if dev_name = Some ''none'' then Inr st
      else
        let st = st\<lparr>num_bufs := set_num_bufs num_audio_buffers\<rparr> in
        if \<not> malloc_ok h 0 then
          Inl (Exit 1 (err_stream st @ [CannotAllocate]))
        else if \<exists>i \<in> set [0..<nat (num_bufs st)]. \<not> malloc_ok h (i + 1) then
          Inl (Exit 1 (err_stream st @ [CannotAllocate]))
        else
          let st = st\<lparr>buffers :=
                     map (\<lambda>i. map (fresh h i) [0..<frame_len]) [0..<nat (num_bufs st)]\<rparr>;
              st = st\<lparr>audio_dev := open_device h dev_name\<rparr>
          in
          if audio_dev st = 0 then
            Inl (Exit (if dev_name \<noteq> None then 1 else - 1)
                      (err_stream st @ [OpenAudioDeviceFailed]))
          else Inr (st\<lparr>chips := YM_start x (chips st)\<rparr>))"

subsection \<open>audio_render\<close>

text \<open>Line 180: the three samples are widened to \<^verbatim>\<open>int\<close>, added, divided by 3 and
  stored into an \<^verbatim>\<open>int16_t\<close>.\<close>

definition mix_sample :: "sample \<Rightarrow> sample \<Rightarrow> sample \<Rightarrow> sample" where
  "mix_sample a b c = word_of_int ((sint a + sint b + sint c) sdiv 3)"

definition mix_frames :: "sample list \<Rightarrow> sample list \<Rightarrow> sample list \<Rightarrow> sample list" where
  "mix_frames psg_buf pcm_buf ym_buf =
     map (\<lambda>i. mix_sample (psg_buf ! i) (pcm_buf ! i) (ym_buf ! i)) [0..<frame_len]"

text \<open>Line 173.\<close>

definition buf_available :: "'c state \<Rightarrow> bool" where
  "buf_available st \<longleftrightarrow> buf_cnt st < num_bufs st"

text \<open>Lines 176 to 190, for the frame \<open>f\<close> that the mixing loop writes into the slot.\<close>

definition push_frame :: "'c state \<Rightarrow> sample list \<Rightarrow> 'c state" where
  "push_frame st f =
     (if buf_available st then
        st\<lparr>buffers := (buffers st)[nat (wridx st) := f],
           wridx := (if wridx st + 1 = num_bufs st then 0 else wridx st + 1),
           buf_cnt := buf_cnt st + 1\<rparr>
      else st)"

text \<open>The body of the loop, lines 160 to 190.\<close>

definition render_once :: "'c sources \<Rightarrow> 'c state \<Rightarrow> 'c state" where
  "render_once x st =
     (let st = st\<lparr>vera_clks := vera_clks st - 512 * SAMPLES_PER_BUFFER\<rparr>;
          (psg_buf, c) = psg_render x (chips st);
          (pcm_buf, c) = pcm_render x c;
          (ym_buf, c) = YM_stream_update x c;
          st = st\<lparr>chips := c, renders := renders st + 1\<rparr>
      in push_frame st (mix_frames psg_buf pcm_buf ym_buf))"

function render_loop :: "'c sources \<Rightarrow> 'c state \<Rightarrow> 'c state" where
  "render_loop x st =
     (if vera_clks st \<ge> 512 * SAMPLES_PER_BUFFER
      then render_loop x (render_once x st) else st)"
  by pat_completeness auto
termination
  by (relation "measure (\<lambda>(x, st). nat (vera_clks st))")
     (simp_all add: render_once_def push_frame_def Let_def SAMPLES_PER_BUFFER_def
        split: prod.splits)

declare render_loop.simps [simp del]

definition audio_render :: "'c sources \<Rightarrow> 'c state \<Rightarrow> int \<Rightarrow> 'c state" where
  "audio_render x st cpu_clocks =
     (if audio_dev st = 0 then st
      else
        let st = st\<lparr>cpu_clks := int32 (cpu_clks st + cpu_clocks)\<rparr>;
            st = (if cpu_clks st > 8 then
                    let c = cpu_clks st sdiv 8 in
                    st\<lparr>cpu_clks := cpu_clks st - c * 8,
                       vera_clks := int32 (vera_clks st + int32 (c * 25))\<rparr>
                  else st)
        in render_loop x st)"

subsection \<open>Sequences of calls\<close>

text \<open>A sequence of \<^verbatim>\<open>audio_render\<close> calls, one per tick argument.\<close>

definition run :: "'c sources \<Rightarrow> 'c state \<Rightarrow> int list \<Rightarrow> 'c state" where
  "run x st ticks = foldl (audio_render x) st ticks"

text \<open>A sequence of \<^verbatim>\<open>audio_render\<close> and \<^verbatim>\<open>audio_close\<close> calls.\<close>

datatype call = Render int | Close

fun do_call :: "'c sources \<Rightarrow> 'c state \<Rightarrow> call \<Rightarrow> 'c state" where
  "do_call x st (Render cpu_clocks) = audio_render x st cpu_clocks"
| "do_call x st Close = audio_close st"

definition calls :: "'c sources \<Rightarrow> 'c state \<Rightarrow> call list \<Rightarrow> 'c state" where
  "calls x st cs = foldl (do_call x) st cs"

text \<open>A sequence of pushes, one per frame.\<close>

definition pushes :: "'c state \<Rightarrow> sample list list \<Rightarrow> 'c state" where
  "pushes st fs = foldl push_frame st fs"

text \<open>
  A sequence of callback invocations with the expected length, one per output region
  (given with its previous contents); the regions as the callback leaves them are
  collected in order.
\<close>

fun callbacks :: "'c state \<Rightarrow> sample list list \<Rightarrow> sample list list \<times> 'c state" where
  "callbacks st [] = ([], st)"
| "callbacks st (stream # streams) =
     (case audio_callback st stream expected_len of
        Inl e \<Rightarrow> ([], st)
      | Inr (st', out) \<Rightarrow>
          (let (outs, st'') = callbacks st' streams in (out # outs, st'')))"

subsection \<open>Invariants and the queue a ring state stands for\<close>

definition clock_ok :: "'c state \<Rightarrow> bool" where
  "clock_ok st \<longleftrightarrow>
     0 \<le> cpu_clks st \<and> cpu_clks st \<le> 8 \<and>
     0 \<le> vera_clks st \<and> vera_clks st < 512 * SAMPLES_PER_BUFFER"

definition ring_ok :: "'c state \<Rightarrow> bool" where
  "ring_ok st \<longleftrightarrow>
     0 < num_bufs st \<and>
     0 \<le> rdidx st \<and> rdidx st < num_bufs st \<and>
     0 \<le> buf_cnt st \<and> buf_cnt st \<le> num_bufs st \<and>
     wridx st = (rdidx st + buf_cnt st) mod num_bufs st \<and>
     length (buffers st) = nat (num_bufs st) \<and>
     list_all (\<lambda>b. length b = frame_len) (buffers st)"

text \<open>The frames waiting in the ring, oldest first.\<close>

definition queued :: "'c state \<Rightarrow> sample list list" where
  "queued st =
     map (\<lambda>k. buffers st ! nat ((rdidx st + int k) mod num_bufs st))
         [0..<nat (buf_cnt st)]"

subsection \<open>The reference count of triggers\<close>

text \<open>
  Eight processor ticks are 25 device ticks; one trigger is due for every
  \<open>512 * SAMPLES_PER_BUFFER\<close> device ticks. The reference value is computed over the
  rationals from the total of the processor ticks.
\<close>

definition total_vera_ticks :: "int list \<Rightarrow> rat" where
  "total_vera_ticks ticks = of_int (sum_list ticks) * 25 / 8"

definition exact_triggers :: "int list \<Rightarrow> int" where
  "exact_triggers ticks =
     \<lfloor>total_vera_ticks ticks / of_int (512 * SAMPLES_PER_BUFFER)\<rfloor>"

subsection \<open>A concrete session\<close>

text \<open>Sources that render the constant frames 3, 4 and 5, and a host on which every
  allocation succeeds and the device opens with identifier 2.\<close>

definition const_sources :: "unit sources" where
  "const_sources =
     \<lparr> psg_render = (\<lambda>c. (replicate frame_len 3, c)),
       pcm_render = (\<lambda>c. (replicate frame_len 4, c)),
       YM_stream_update = (\<lambda>c. (replicate frame_len 5, c)),
       YM_start = (\<lambda>c. c) \<rparr>"

definition good_host :: host where
  "good_host = \<lparr> malloc_ok = (\<lambda>k. True), fresh = (\<lambda>i j. 0), open_device = (\<lambda>n. 2) \<rparr>"

text \<open>The state that \<^verbatim>\<open>audio_init(NULL, n)\<close> reaches from the static initialisers on
  that host, for a number of slots \<open>n\<close> between 3 and 1024.\<close>

definition opened :: "int \<Rightarrow> unit state" where
  "opened n = \<lparr> audio_dev = 2, vera_clks = 0, cpu_clks = 0,
      buffers = replicate (nat n) (replicate frame_len 0),
      rdidx = 0, wridx = 0, buf_cnt = 0, num_bufs = n, chips = (),
      err_stream = [], renders = 0 \<rparr>"

section \<open>Arithmetic facts\<close>

lemma threshold_value: "512 * SAMPLES_PER_BUFFER = 131072"
  by (simp add: SAMPLES_PER_BUFFER_def)

lemma frame_len_value: "frame_len = 512"
  by (simp add: frame_len_def SAMPLES_PER_BUFFER_def)

lemma expected_len_value: "expected_len = 1024"
  by (simp add: expected_len_def SAMPLES_PER_BUFFER_def)

lemma int32_id: "- 2147483648 \<le> x \<Longrightarrow> x < 2147483648 \<Longrightarrow> int32 x = x"
  by (simp add: int32_def)

lemma exact_triggers_div:
  "exact_triggers ticks = (sum_list ticks * 25) div (8 * (512 * SAMPLES_PER_BUFFER))"
proof -
  have "total_vera_ticks ticks / of_int (512 * SAMPLES_PER_BUFFER)
      = (of_int (sum_list ticks * 25) :: rat) / of_int (8 * (512 * SAMPLES_PER_BUFFER))"
    by (simp add: total_vera_ticks_def)
  then show ?thesis
    unfolding exact_triggers_def by (simp only: floor_divide_of_int_eq)
qed

section \<open>The clock accumulator\<close>

lemma render_once_fields:
  "vera_clks (render_once x st) = vera_clks st - 512 * SAMPLES_PER_BUFFER"
  "cpu_clks (render_once x st) = cpu_clks st"
  "audio_dev (render_once x st) = audio_dev st"
  "renders (render_once x st) = renders st + 1"
  by (simp_all add: render_once_def push_frame_def Let_def split: prod.splits)

lemma render_loop_clock:
  "0 \<le> vera_clks st \<Longrightarrow>
     vera_clks (render_loop x st) = vera_clks st mod (512 * SAMPLES_PER_BUFFER) \<and>
     int (renders (render_loop x st)) =
       int (renders st) + vera_clks st div (512 * SAMPLES_PER_BUFFER) \<and>
     cpu_clks (render_loop x st) = cpu_clks st \<and>
     audio_dev (render_loop x st) = audio_dev st"
proof (induction x st rule: render_loop.induct)
  case (1 x st)
  show ?case
  proof (cases "vera_clks st \<ge> 512 * SAMPLES_PER_BUFFER")
    case True
    let ?s = "render_once x st"
    have v: "vera_clks ?s = vera_clks st - 131072"
      by (simp add: render_once_fields threshold_value)
    have ge: "0 \<le> vera_clks ?s" using True v by (simp add: threshold_value)
    have unf: "render_loop x st = render_loop x ?s"
      using True by (subst render_loop.simps) simp
    have m: "(vera_clks st - 131072) mod 131072 = vera_clks st mod 131072"
      by (metis minus_mod_self2)
    have d: "(vera_clks st - 131072) div 131072 = vera_clks st div 131072 - 1"
      by (simp add: div_diff)
    from "1.IH" [OF True ge] show ?thesis
      unfolding unf by (simp add: v m d render_once_fields threshold_value)
  next
    case False
    then have unf: "render_loop x st = st"
      by (subst render_loop.simps) simp
    from False "1.prems" show ?thesis
      unfolding unf by (simp add: threshold_value)
  qed
qed

lemma audio_render_clock:
  assumes "audio_dev st \<noteq> 0" and "clock_ok st" and "0 \<le> t" and "t \<le> 536870912"
  shows "clock_ok (audio_render x st t) \<and>
         audio_dev (audio_render x st t) = audio_dev st \<and>
         25 * cpu_clks (audio_render x st t)
           + 8 * (131072 * int (renders (audio_render x st t)) + vera_clks (audio_render x st t))
         = 25 * (cpu_clks st + t) + 8 * (131072 * int (renders st) + vera_clks st)"
proof -
  from assms have b: "0 \<le> cpu_clks st" "cpu_clks st \<le> 8" "0 \<le> vera_clks st" "vera_clks st < 131072"
    by (simp_all add: clock_ok_def threshold_value)
  let ?a = "cpu_clks st + t"
  have a: "int32 ?a = ?a" using b assms by (intro int32_id) auto
  show ?thesis
  proof (cases "?a > 8")
    case True
    let ?c = "?a div 8"
    have sd: "?a sdiv 8 = ?c" using True by (simp add: signed_divide_int_def sgn_if)
    have c25: "int32 (?c * 25) = ?c * 25" using True b assms by (intro int32_id) auto
    have v: "int32 (vera_clks st + ?c * 25) = vera_clks st + ?c * 25"
      using True b assms by (intro int32_id) auto
    let ?m = "st\<lparr>cpu_clks := ?a - ?c * 8, vera_clks := vera_clks st + ?c * 25\<rparr>"
    have ar: "audio_render x st t = render_loop x ?m"
      using assms(1) True by (simp add: audio_render_def a sd c25 v Let_def)
    have ge: "0 \<le> vera_clks ?m" using True b by simp
    note L = render_loop_clock [OF ge, of x]
    have r: "?a - ?c * 8 = ?a mod 8" by (simp add: minus_div_mult_eq_mod)
    let ?v = "vera_clks st + ?c * 25"
    have L1: "vera_clks (render_loop x ?m) = ?v mod 131072"
      and L2: "int (renders (render_loop x ?m)) = int (renders st) + ?v div 131072"
      and L3: "cpu_clks (render_loop x ?m) = ?a mod 8"
      and L4: "audio_dev (render_loop x ?m) = audio_dev st"
      using L by (simp_all add: threshold_value r)
    define c m where "c = ?a div 8" and "m = ?a mod 8"
    define q r where "q = (vera_clks st + c * 25) div 131072"
      and "r = (vera_clks st + c * 25) mod 131072"
    have e1: "131072 * q + r = vera_clks st + c * 25" by (simp add: q_def r_def)
    have e2: "8 * c + m = ?a" by (simp add: c_def m_def)
    have "25 * m + 8 * (131072 * (int (renders st) + q) + r)
        = 25 * ?a + 8 * (131072 * int (renders st) + vera_clks st)"
      using e1 e2 by (simp add: algebra_simps)
    then have cons: "25 * (?a mod 8) + 8 * (131072 * (int (renders st) + ?v div 131072) + ?v mod 131072)
        = 25 * ?a + 8 * (131072 * int (renders st) + vera_clks st)"
      by (simp only: c_def m_def q_def r_def)
    show ?thesis unfolding ar clock_ok_def L1 L2 L3 L4 using cons
      by (simp add: threshold_value)
  next
    case False
    have ar: "audio_render x st t = render_loop x (st\<lparr>cpu_clks := ?a\<rparr>)"
      using assms(1) False by (simp add: audio_render_def a Let_def)
    have ge: "0 \<le> vera_clks (st\<lparr>cpu_clks := ?a\<rparr>)" using b by simp
    note L = render_loop_clock [OF ge, of x]
    show ?thesis unfolding ar clock_ok_def using L b False assms
      by (simp add: threshold_value)
  qed
qed

lemma run_clock:
  "audio_dev st \<noteq> 0 \<Longrightarrow> clock_ok st \<Longrightarrow> \<forall>t \<in> set ticks. 0 \<le> t \<and> t \<le> 536870912 \<Longrightarrow>
     clock_ok (run x st ticks) \<and>
     audio_dev (run x st ticks) = audio_dev st \<and>
     25 * cpu_clks (run x st ticks)
       + 8 * (131072 * int (renders (run x st ticks)) + vera_clks (run x st ticks))
     = 25 * (cpu_clks st + sum_list ticks) + 8 * (131072 * int (renders st) + vera_clks st)"
proof (induction ticks arbitrary: st)
  case Nil
  then show ?case by (simp add: run_def)
next
  case (Cons t ticks)
  let ?s = "audio_render x st t"
  have t: "0 \<le> t" "t \<le> 536870912" using Cons.prems(3) by simp_all
  note A = audio_render_clock [OF Cons.prems(1,2) t, of x]
  have dev: "audio_dev ?s \<noteq> 0" using A Cons.prems(1) by simp
  have rest: "\<forall>t \<in> set ticks. 0 \<le> t \<and> t \<le> 536870912" using Cons.prems(3) by simp
  note I = Cons.IH [OF dev conjunct1 [OF A] rest]
  have unf: "run x st (t # ticks) = run x ?s ticks" by (simp add: run_def)
  show ?case unfolding unf using I A by simp
qed

lemma opened_clock: "audio_dev (opened n) \<noteq> 0" "clock_ok (opened n)" "renders (opened n) = 0"
  "cpu_clks (opened n) = 0" "vera_clks (opened n) = 0"
  by (simp_all add: opened_def clock_ok_def threshold_value)

lemma div_mod_unique_int:
  fixes k v d :: int
  assumes "n = d * k + v" "0 \<le> v" "v < d"
  shows "n div d = k" "n mod d = v"
proof -
  have "n div d = (v + k * d) div d" using assms(1) by (simp add: mult.commute add.commute)
  also have "\<dots> = v div d + k" using assms by (subst div_mult_self1) auto
  finally show "n div d = k" using assms by simp
  have "n mod d = (v + k * d) mod d" using assms(1) by (simp add: mult.commute add.commute)
  then show "n mod d = v" using assms by simp
qed

lemma ratio_split1:
  "25 * r + 8 * X = 25 * (T::int) \<Longrightarrow> T - r = 8 * (X - 3 * (T - r))"
  by (simp add: algebra_simps)

lemma ratio_split2:
  "25 * r + 8 * X = 25 * (T::int) \<Longrightarrow> 25 * (X - 3 * (T - r)) = X"
  by (simp add: algebra_simps)

lemma render_loop_fields:
  assumes "0 \<le> vera_clks st"
  shows "vera_clks (render_loop x st) = vera_clks st mod 131072"
    and "renders (render_loop x st) = renders st + nat (vera_clks st div 131072)"
    and "cpu_clks (render_loop x st) = cpu_clks st"
    and "audio_dev (render_loop x st) = audio_dev st"
proof -
  note L = render_loop_clock [OF assms, of x]
  show "vera_clks (render_loop x st) = vera_clks st mod 131072"
    and "cpu_clks (render_loop x st) = cpu_clks st"
    and "audio_dev (render_loop x st) = audio_dev st"
    using L by (simp_all add: threshold_value)
  have d: "0 \<le> vera_clks st div 131072" using assms by simp
  have "int (renders (render_loop x st)) = int (renders st + nat (vera_clks st div 131072))"
    using L d by (simp add: threshold_value)
  then show "renders (render_loop x st) = renders st + nat (vera_clks st div 131072)"
    by (simp only: of_nat_eq_iff)
qed

section \<open>Claims about the clock accumulator\<close>

text \<open>
  Claim C1, as stated: for every sequence of \<^verbatim>\<open>audio_render\<close> calls with non-negative
  tick arguments the number of passes through the render loop equals
  \<open>\<lfloor>total_vera_ticks / (512 * SAMPLES_PER_BUFFER)\<rfloor>\<close>, computed over the rationals from
  the total of the processor ticks. It fails for the single call \<^verbatim>\<open>audio_render(83887)\<close>
  on a fresh session: 83887 ticks are 10485 whole groups of 8 and a rest of 7, the groups
  give 262125 device ticks, which is one pass (131072) with 131053 left over, while
  \<open>83887 * 25 / 8 = 262146.875\<close> is more than two thresholds (262144).
\<close>

theorem exact_trigger_count_counterexample:
  "renders (run const_sources (opened 3) [83887]) = 1 \<and> exact_triggers [83887] = 2"
  by (simp add: exact_triggers_div threshold_value run_def audio_render_def opened_def
       int32_def signed_divide_int_def Let_def render_loop_fields)

text \<open>
  Claim C1, amended: on an open session whose clock state is fresh, for every sequence of
  \<^verbatim>\<open>audio_render\<close> calls with tick arguments between 0 and \<open>2^29\<close> (so that the 32-bit
  accumulations do not overflow), the processor ticks not carried in \<open>cpu_clks\<close> are a
  whole number of groups of 8, each group has been converted into 25 device ticks, and the
  number of passes through the render loop is the floor of these converted device ticks
  over the threshold, the rest of that division being carried in \<open>vera_clks\<close>: no tick
  is discarded. The count never exceeds the rational reference value and is at most one
  less.
\<close>

theorem triggers_count_converted_ticks:
  assumes "audio_dev st \<noteq> 0" and "cpu_clks st = 0" and "vera_clks st = 0" and "renders st = 0"
    and "\<forall>t \<in> set ticks. 0 \<le> t \<and> t \<le> 536870912"
  shows "8 dvd (sum_list ticks - cpu_clks (run x st ticks)) \<and>
    int (renders (run x st ticks))
      = (25 * ((sum_list ticks - cpu_clks (run x st ticks)) div 8)) div (512 * SAMPLES_PER_BUFFER) \<and>
    vera_clks (run x st ticks)
      = (25 * ((sum_list ticks - cpu_clks (run x st ticks)) div 8)) mod (512 * SAMPLES_PER_BUFFER) \<and>
    int (renders (run x st ticks)) \<le> exact_triggers ticks \<and>
    exact_triggers ticks \<le> int (renders (run x st ticks)) + 1"
proof -
  define T where "T = sum_list ticks"
  define r where "r = cpu_clks (run x st ticks)"
  define v where "v = vera_clks (run x st ticks)"
  define k where "k = int (renders (run x st ticks))"
  have ok: "clock_ok st" using assms by (simp add: clock_ok_def threshold_value)
  note R = run_clock [OF assms(1) ok assms(5), of x]
  have b: "0 \<le> r" "r \<le> 8" "0 \<le> v" "v < 131072"
    using R by (simp_all add: clock_ok_def threshold_value r_def v_def)
  have cons: "25 * r + 8 * (131072 * k + v) = 25 * T"
    using R assms by (simp add: r_def v_def k_def T_def)
  have k0: "0 \<le> k" by (simp add: k_def)
  define X where "X = 131072 * k + v"
  define q where "q = X - 3 * (T - r)"
  have cons': "25 * r + 8 * X = 25 * T" using cons by (simp add: X_def)
  have q: "T - r = 8 * q" unfolding q_def by (rule ratio_split1 [OF cons'])
  have dvd: "8 dvd (T - r)" unfolding q by simp
  have "25 * q = X" unfolding q_def by (rule ratio_split2 [OF cons'])
  then have q25: "25 * q = 131072 * k + v" by (simp add: X_def)
  have qd: "(T - r) div 8 = q" using q by simp
  have kq: "(25 * q) div 131072 = k" and vq: "(25 * q) mod 131072 = v"
    using div_mod_unique_int [OF q25 b(3,4)] by simp_all
  define e where "e = 8 * v + 25 * r"
  have e: "0 \<le> e" "e < 2 * 1048576" using b by (simp_all add: e_def)
  have T25: "T * 25 = e + k * 1048576" using cons by (simp add: e_def)
  have ex: "exact_triggers ticks = e div 1048576 + k"
    unfolding exact_triggers_div threshold_value T_def [symmetric] T25 by simp
  have ed: "0 \<le> e div 1048576" "e div 1048576 \<le> 1" using e by simp_all
  show ?thesis
    unfolding threshold_value T_def [symmetric] r_def [symmetric] v_def [symmetric] k_def [symmetric]
    using dvd qd kq vq ex ed by simp
qed

theorem triggers_count_converted_ticks_witness:
  "audio_dev (opened 3) \<noteq> 0 \<and> cpu_clks (opened 3) = 0 \<and> vera_clks (opened 3) = 0 \<and>
   renders (opened 3) = 0 \<and>
   list_all (\<lambda>t. 0 \<le> t \<and> t \<le> (536870912::int)) [41936, 8, 41943] \<and>
   cpu_clks (run const_sources (opened 3) [41936, 8, 41943]) = 7 \<and>
   renders (run const_sources (opened 3) [41936, 8, 41943]) = 1 \<and>
   8 dvd (sum_list [41936, 8, 41943] - cpu_clks (run const_sources (opened 3) [41936, 8, 41943])) \<and>
   int (renders (run const_sources (opened 3) [41936, 8, 41943]))
     = (25 * ((sum_list [41936, 8, 41943] - cpu_clks (run const_sources (opened 3) [41936, 8, 41943])) div 8))
         div (512 * SAMPLES_PER_BUFFER) \<and>
   exact_triggers [41936, 8, 41943] = 2"
  using triggers_count_converted_ticks [of "opened 3" "[41936, 8, 41943]" const_sources]
  by (simp add: opened_def exact_triggers_div threshold_value run_def audio_render_def
       int32_def signed_divide_int_def Let_def render_loop_fields)

text \<open>
  Claim C4: after every completed \<^verbatim>\<open>audio_render\<close> call \<open>cpu_clks\<close> is in \<open>[0, 8)\<close> and
  \<open>vera_clks\<close> is in \<open>[0, 512 * SAMPLES_PER_BUFFER)\<close>. The guard of line 153 is
  \<^verbatim>\<open>cpu_clks > 8\<close>, so a value of exactly 8 is not reduced although lines 154 and 155
  would reduce it: after \<^verbatim>\<open>audio_render(8)\<close> on a fresh session \<open>cpu_clks\<close> is 8.
\<close>

theorem cpu_clks_reaches_eight:
  "cpu_clks (audio_render const_sources (opened 3) 8) = 8"
  by (simp add: audio_render_def opened_def int32_def render_loop_fields)

text \<open>
  The group of 8 that stays unconverted shows in the count of passes: the same total of
  41944 ticks gives one pass in one call, and none when split into 41936 and 8. The part
  of the invariant that the code does keep is \<open>clock_ok\<close> (lemma \<open>run_clock\<close>).
\<close>

lemma split_changes_render_count:
  "renders (run const_sources (opened 3) [41944]) = 1 \<and>
   renders (run const_sources (opened 3) [41936, 8]) = 0"
  by (simp add: run_def audio_render_def opened_def
       int32_def signed_divide_int_def Let_def render_loop_fields)

section \<open>The mixer\<close>

lemma sample_sum_bounds:
  fixes a b c :: sample
  shows "- 98304 \<le> sint a + sint b + sint c" and "sint a + sint b + sint c \<le> 98301"
  using sint_ge [of a] sint_ge [of b] sint_ge [of c] sint_lt [of a] sint_lt [of b] sint_lt [of c]
  by simp_all

lemma sdiv3_bounds:
  fixes s :: int
  assumes "- 98304 \<le> s" and "s \<le> 98301"
  shows "- 32768 \<le> s sdiv 3" and "s sdiv 3 \<le> 32767"
proof -
  show "- 32768 \<le> s sdiv 3"
  proof (cases "0 \<le> s")
    case True
    then have "s sdiv 3 = s div 3" by (simp add: signed_divide_int_def sgn_if)
    with True show ?thesis by simp
  next
    case False
    then have "s sdiv 3 = - ((- s) div 3)" by (simp add: signed_divide_int_def sgn_if)
    moreover have "(- s) div 3 \<le> 32768" using assms by simp
    ultimately show ?thesis by simp
  qed
  show "s sdiv 3 \<le> 32767"
  proof (cases "0 \<le> s")
    case True
    then have "s sdiv 3 = s div 3" by (simp add: signed_divide_int_def sgn_if)
    moreover have "s div 3 \<le> 32767" using assms by simp
    ultimately show ?thesis by simp
  next
    case False
    then have "s sdiv 3 = - ((- s) div 3)" by (simp add: signed_divide_int_def sgn_if)
    moreover have "0 \<le> (- s) div 3" using False by simp
    ultimately show ?thesis by simp
  qed
qed

lemma sint_store_sample:
  fixes v :: int
  assumes "- 32768 \<le> v" and "v \<le> 32767"
  shows "sint (word_of_int v :: sample) = v"
  using assms by (simp add: sint_sbintrunc' signed_take_bit_int_eq_self)

lemma sint_mix_sample:
  "sint (mix_sample a b c) = (sint a + sint b + sint c) sdiv 3"
  unfolding mix_sample_def
  by (rule sint_store_sample) (rule sdiv3_bounds [OF sample_sum_bounds])+

lemma mix_frames_nth:
  "i < frame_len \<Longrightarrow> mix_frames a b c ! i = mix_sample (a ! i) (b ! i) (c ! i)"
  by (simp add: mix_frames_def)

lemma length_mix_frames: "length (mix_frames a b c) = frame_len"
  by (simp add: mix_frames_def)

text \<open>
  Claim C6: when a slot is free, every sample \<open>i\<close> of the frame that one pass through the
  render loop writes into the slot at \<open>wridx\<close> is the sum of the three sources' samples
  divided by 3 with truncation toward zero (sign times the quotient of the magnitudes).
  Three times 32767 gives 32767, three times -32768 gives -32768 (which is -98304 / 3
  exactly), and 3, 4, 5 give 4.
\<close>

theorem mix_is_truncated_average:
  assumes "buf_available st" and "nat (wridx st) < length (buffers st)" and "i < frame_len"
    and "psg_render x (chips st) = (psg_buf, c1)"
    and "pcm_render x c1 = (pcm_buf, c2)"
    and "YM_stream_update x c2 = (ym_buf, c3)"
  shows "sint (buffers (render_once x st) ! nat (wridx st) ! i)
           = sgn (sint (psg_buf ! i) + sint (pcm_buf ! i) + sint (ym_buf ! i))
             * (\<bar>sint (psg_buf ! i) + sint (pcm_buf ! i) + sint (ym_buf ! i)\<bar> div 3) \<and>
         sint (mix_sample 32767 32767 32767) = 32767 \<and>
         sint (mix_sample (- 32768) (- 32768) (- 32768)) = - 32768 \<and>
         sint (mix_sample 3 4 5) = 4"
proof -
  have slot: "buffers (render_once x st) ! nat (wridx st) = mix_frames psg_buf pcm_buf ym_buf"
    using assms by (simp add: render_once_def push_frame_def buf_available_def Let_def)
  have "sint (mix_frames psg_buf pcm_buf ym_buf ! i)
      = (sint (psg_buf ! i) + sint (pcm_buf ! i) + sint (ym_buf ! i)) sdiv 3"
    using assms(3) by (simp add: mix_frames_nth sint_mix_sample)
  then show ?thesis
    unfolding slot by (simp add: sint_mix_sample signed_divide_int_def)
qed

theorem mix_is_truncated_average_witness:
  "buf_available (opened 3) \<and> nat (wridx (opened 3)) < length (buffers (opened 3)) \<and>
   511 < frame_len \<and>
   psg_render const_sources (chips (opened 3)) = (replicate frame_len 3, ()) \<and>
   pcm_render const_sources () = (replicate frame_len 4, ()) \<and>
   YM_stream_update const_sources () = (replicate frame_len 5, ()) \<and>
   sint (buffers (render_once const_sources (opened 3)) ! nat (wridx (opened 3)) ! 511) = 4"
  using mix_is_truncated_average [of "opened 3" 511 const_sources
      "replicate frame_len 3" "()" "replicate frame_len 4" "()" "replicate frame_len 5" "()"]
  by (simp add: opened_def buf_available_def const_sources_def frame_len_value)

text \<open>
  Claim C10: for all 16-bit samples the quotient computed in \<^verbatim>\<open>int\<close> lies in
  \<open>[-32768, 32767]\<close>, so the store into the \<^verbatim>\<open>int16_t\<close> slot keeps its value.
\<close>

theorem mix_store_in_range:
  "- 32768 \<le> (sint a + sint b + sint c) sdiv 3 \<and>
   (sint a + sint b + sint c) sdiv 3 \<le> 32767 \<and>
   sint (mix_sample a b c) = (sint a + sint b + sint c) sdiv 3"
  using sdiv3_bounds [OF sample_sum_bounds, of a b c] by (simp add: sint_mix_sample)

section \<open>Initialisation\<close>

lemma set_num_bufs_eq:
  "set_num_bufs n = (if n < 3 then 3 else if n > 1024 then 1024 else n)"
  by (simp add: set_num_bufs_def Let_def)

lemma audio_init_good_host:
  "audio_init const_sources good_host (initial ()) None n = Inr (opened (set_num_bufs n))"
  by (simp add: audio_init_def initial_def opened_def good_host_def const_sources_def
        Let_def map_replicate_const)

text \<open>
  Claim C9: when \<^verbatim>\<open>audio_init\<close> is called with a device name other than \<^verbatim>\<open>"none"\<close> and
  returns, the number of slots is the requested number clamped to \<open>[3, 1024]\<close>, and that
  many slots are allocated: a request of 1 gives 3, of 5000 gives 1024, of 3 gives 3, and
  a request within the range is kept.
\<close>

theorem init_clamps_buffer_count:
  assumes "dev_name \<noteq> Some ''none''" and "audio_init x h st dev_name n = Inr st'"
  shows "num_bufs st' = (if n < 3 then 3 else if n > 1024 then 1024 else n) \<and>
         3 \<le> num_bufs st' \<and> num_bufs st' \<le> 1024 \<and>
         length (buffers st') = nat (num_bufs st') \<and>
         set_num_bufs 1 = 3 \<and> set_num_bufs 5000 = 1024 \<and> set_num_bufs 3 = 3"
  using assms
  by (auto simp: audio_init_def set_num_bufs_eq Let_def split: if_splits)

theorem init_clamps_buffer_count_witness:
  "None \<noteq> Some ''none'' \<and>
   audio_init const_sources good_host (initial ()) None 5000 = Inr (opened 1024) \<and>
   num_bufs (opened 1024) = 1024 \<and> length (buffers (opened 1024)) = 1024"
  using init_clamps_buffer_count [of None const_sources good_host "initial ()" 5000 "opened 1024"]
  by (simp add: audio_init_good_host set_num_bufs_eq)

lemma audio_render_closed: "audio_dev st = 0 \<Longrightarrow> audio_render x st t = st"
  by (simp add: audio_render_def)

lemma audio_close_closed: "audio_dev st = 0 \<Longrightarrow> audio_close st = st"
  by (simp add: audio_close_def)

lemma calls_closed: "audio_dev st = 0 \<Longrightarrow> calls x st cs = st"
proof (induction cs)
  case Nil
  then show ?case by (simp add: calls_def)
next
  case (Cons c cs)
  have "do_call x st c = st"
    using Cons.prems by (cases c) (simp_all add: audio_render_closed audio_close_closed)
  then show ?case using Cons by (simp add: calls_def)
qed

text \<open>
  Claim C8: \<^verbatim>\<open>audio_init("none", n)\<close> returns at once, whatever the host would answer: no
  device is opened and no slot is allocated (a session that was open is closed first, and
  from the static initialisers nothing changes at all). In the state it leaves,
  \<^verbatim>\<open>audio_render\<close> with any tick count and \<^verbatim>\<open>audio_close\<close> change nothing, singly or in
  any sequence, so no frame is rendered or queued.
\<close>

theorem none_device_disables_audio:
  "audio_init x h st (Some ''none'') n = Inr (if audio_dev st > 0 then audio_close st else st) \<and>
   audio_init x h (initial c) (Some ''none'') n = Inr (initial c) \<and>
   (audio_init x h st (Some ''none'') n = Inr st' \<longrightarrow>
      audio_dev st' = 0 \<and>
      buffers st' = (if audio_dev st > 0 then [] else buffers st) \<and>
      (\<forall>t. audio_render x st' t = st') \<and>
      audio_close st' = st' \<and>
      (\<forall>cs. calls x st' cs = st'))"
proof -
  let ?s = "if audio_dev st > 0 then audio_close st else st"
  have i: "audio_init x h st (Some ''none'') n = Inr ?s"
    by (simp add: audio_init_def Let_def)
  have d: "audio_dev ?s = 0" by (simp add: audio_close_def)
  have b: "buffers ?s = (if audio_dev st > 0 then [] else buffers st)"
    by (simp add: audio_close_def)
  have j: "audio_init x h (initial c) (Some ''none'') n = Inr (initial c)"
    by (simp add: audio_init_def Let_def initial_def)
  show ?thesis
    unfolding i j using d b
    by (auto simp: audio_render_closed audio_close_closed calls_closed)
qed

theorem none_device_disables_audio_witness:
  "audio_init const_sources good_host (initial ()) (Some ''none'') 8 = Inr (initial ()) \<and>
   audio_render const_sources (initial ()) 1000000 = initial () \<and>
   audio_close (initial ()) = initial () \<and>
   calls const_sources (initial ()) [Render 1000000, Close, Render 5] = initial () \<and>
   renders (initial () :: unit state) = 0 \<and> buf_cnt (initial () :: unit state) = 0"
  using none_device_disables_audio [of const_sources good_host "initial ()" 8 "()" "initial ()"]
  by (simp add: initial_def)

section \<open>The playback callback\<close>

lemma expected_len_samples: "nat (expected_len div 2) = frame_len"
  by (simp add: expected_len_def frame_len_def)

lemma memset_zero_region:
  "length stream = frame_len \<Longrightarrow> memset_zero stream expected_len = replicate frame_len 0"
  by (simp add: memset_zero_def expected_len_samples)

lemma memcpy_region:
  "length stream = frame_len \<Longrightarrow> length src = frame_len \<Longrightarrow>
     memcpy stream src expected_len = src"
  by (simp add: memcpy_def expected_len_samples)

text \<open>
  Claim C2, as stated: a requested length other than \<open>expected_len\<close> is fatal, the mismatch
  is reported and the process ends. It fails: on an open session, asked for 4 bytes, the
  callback prints the mismatch and returns to its caller; no \<^verbatim>\<open>exit\<close> is reached.
\<close>

theorem callback_length_mismatch_counterexample:
  "audio_callback (opened 3) [7, 7] 4
     = Inr ((opened 3)\<lparr>err_stream := [SizeMismatch 1024 4]\<rparr>, [7, 7])"
  by (simp add: audio_callback_def opened_def expected_len_value)

text \<open>
  Claim C2, amended: when the device is open and the requested length differs from
  \<open>expected_len\<close> (frames per buffer times 2 channels times 2 bytes), the callback reports
  the mismatch on the error stream and returns; the process goes on, and the output region,
  the ring and the rest of the state are left as they were.
\<close>

theorem callback_length_mismatch_returns:
  assumes "audio_dev st \<noteq> 0" and "len \<noteq> expected_len"
  shows "audio_callback st stream len
     = Inr (st\<lparr>err_stream := err_stream st @ [SizeMismatch expected_len len]\<rparr>, stream)"
  using assms by (simp add: audio_callback_def)

theorem callback_length_mismatch_returns_witness:
  "audio_dev (opened 3) \<noteq> 0 \<and> 2048 \<noteq> expected_len \<and>
   audio_callback (opened 3) (replicate 1024 9) 2048
     = Inr ((opened 3)\<lparr>err_stream := [SizeMismatch 1024 2048]\<rparr>, replicate 1024 9)"
  using callback_length_mismatch_returns [of "opened 3" 2048 "replicate 1024 9"]
  by (simp add: opened_def expected_len_value)

text \<open>
  Claim C3, as stated: every invocation of the callback overwrites the whole requested
  region, with the popped frame or with zeros. It fails on the two early returns: with a
  mismatched length (line 42) and with no open device (line 36) the region keeps its
  previous contents although the ring is empty.
\<close>

theorem callback_stale_output_counterexample:
  "buf_cnt (opened 3) = 0 \<and>
   audio_callback (opened 3) (replicate 4 7) 8 =
     Inr ((opened 3)\<lparr>err_stream := [SizeMismatch 1024 8]\<rparr>, replicate 4 7) \<and>
   buf_cnt (initial () :: unit state) = 0 \<and>
   audio_callback (initial ()) (replicate frame_len 7) expected_len =
     Inr (initial (), replicate frame_len 7) \<and>
   replicate frame_len (7 :: sample) \<noteq> replicate frame_len 0"
  by (simp add: audio_callback_def opened_def initial_def expected_len_value frame_len_value)

text \<open>
  Claim C3, amended: when the device is open and the requested length is \<open>expected_len\<close>,
  the callback overwrites the whole region: with zeros when the ring is empty, otherwise
  with the frame in the slot at \<open>rdidx\<close>, which it pops. When no device is open or the
  length differs, it returns without writing to the region.
\<close>

theorem callback_overwrites_region:
  "(audio_dev st \<noteq> 0 \<and> len = expected_len \<and> length stream = frame_len \<and>
      (buf_cnt st \<noteq> 0 \<longrightarrow> length (buffers st ! nat (rdidx st)) = frame_len) \<longrightarrow>
    audio_callback st stream len =
      Inr (if buf_cnt st = 0 then (st, replicate frame_len 0)
           else (st\<lparr>rdidx := (if rdidx st + 1 = num_bufs st then 0 else rdidx st + 1),
                    buf_cnt := buf_cnt st - 1\<rparr>,
                 buffers st ! nat (rdidx st)))) \<and>
   (audio_dev st = 0 \<longrightarrow> audio_callback st stream len = Inr (st, stream)) \<and>
   (audio_dev st \<noteq> 0 \<and> len \<noteq> expected_len \<longrightarrow>
    (\<exists>st'. audio_callback st stream len = Inr (st', stream)))"
  by (simp add: audio_callback_def memset_zero_region memcpy_region)

theorem callback_overwrites_region_witness:
  "audio_dev (opened 3) \<noteq> 0 \<and> length (replicate frame_len (7 :: sample)) = frame_len \<and>
   buf_cnt (opened 3) = 0 \<and>
   audio_callback (opened 3) (replicate frame_len 7) expected_len =
      Inr (opened 3, replicate frame_len 0) \<and>
   buf_cnt (push_frame (opened 3) (replicate frame_len 5)) = 1 \<and>
   audio_callback (push_frame (opened 3) (replicate frame_len 5)) (replicate frame_len 7)
       expected_len =
      Inr ((opened 3)\<lparr>buffers := (buffers (opened 3))[0 := replicate frame_len 5],
                        rdidx := 1, wridx := 1, buf_cnt := 0\<rparr>,
           replicate frame_len 5)"
  using callback_overwrites_region [of "opened 3" expected_len "replicate frame_len 7"]
    callback_overwrites_region [of "push_frame (opened 3) (replicate frame_len 5)" expected_len
      "replicate frame_len 7"]
  by (simp add: opened_def push_frame_def buf_available_def)

section \<open>The ring of slots\<close>

text \<open>
  A push is lines 171 to 190 of \<^verbatim>\<open>audio_render\<close> (\<open>buf_available\<close> and \<open>push_frame\<close>, which
  \<open>render_once\<close> applies to the mixed frame); \<^verbatim>\<open>Full\<close> is \<open>buf_available\<close> being false. A
  pop is lines 45 to 54 of \<^verbatim>\<open>audio_callback\<close>; \<^verbatim>\<open>Empty\<close> is the zero-filled region with
  the state unchanged.
\<close>

text \<open>One pass through the render loop pushes the mixed frame.\<close>

lemma render_once_push:
  assumes "psg_render x (chips st) = (psg_buf, c1)" and "pcm_render x c1 = (pcm_buf, c2)"
    and "YM_stream_update x c2 = (ym_buf, c3)"
  shows "render_once x st =
     push_frame (st\<lparr>vera_clks := vera_clks st - 512 * SAMPLES_PER_BUFFER,
                    chips := c3, renders := renders st + 1\<rparr>)
       (mix_frames psg_buf pcm_buf ym_buf)"
  using assms by (simp add: render_once_def Let_def)

lemma wrap_next:
  fixes i n :: int
  assumes "0 \<le> i" and "i < n"
  shows "(if i + 1 = n then 0 else i + 1) = (i + 1) mod n"
  using assms by (auto simp: mod_pos_pos_trivial)

lemma ring_index_distinct:
  fixes r n :: int and j k :: nat
  assumes "0 < n" and "j < k" and "int k < n"
  shows "(r + int j) mod n \<noteq> (r + int k) mod n"
proof
  assume "(r + int j) mod n = (r + int k) mod n"
  then have "(r + int k) mod n = (r + int j) mod n" by simp
  then have "n dvd (r + int k) - (r + int j)" by (simp only: mod_eq_dvd_iff)
  then have "n dvd int k - int j" by simp
  moreover have "0 < int k - int j" "int k - int j < n" using assms by simp_all
  ultimately show False using zdvd_not_zless by blast
qed

lemma ring_index_range:
  fixes r n :: int
  assumes "0 < n"
  shows "0 \<le> (r + k) mod n" and "nat ((r + k) mod n) < nat n"
  using assms by simp_all

lemma push_frame_ok:
  assumes "ring_ok st" and "buf_available st" and "length f = frame_len"
  shows "ring_ok (push_frame st f)"
    and "queued (push_frame st f) = queued st @ [f]"
    and "buf_cnt (push_frame st f) = buf_cnt st + 1"
    and "num_bufs (push_frame st f) = num_bufs st"
    and "audio_dev (push_frame st f) = audio_dev st"
proof -
  let ?n = "num_bufs st" and ?r = "rdidx st" and ?c = "buf_cnt st"
  from assms have n: "0 < ?n" and r: "0 \<le> ?r" "?r < ?n" and c: "0 \<le> ?c" "?c < ?n"
    and w: "wridx st = (?r + ?c) mod ?n" and len: "length (buffers st) = nat ?n"
    and slots: "list_all (\<lambda>b. length b = frame_len) (buffers st)"
    by (simp_all add: ring_ok_def buf_available_def)
  have w0: "0 \<le> wridx st" "wridx st < ?n" using n by (simp_all add: w)
  have "(if wridx st + 1 = ?n then 0 else wridx st + 1) = (wridx st + 1) mod ?n"
    by (rule wrap_next [OF w0])
  also have "\<dots> = ((?r + ?c) mod ?n + 1) mod ?n" by (simp only: w)
  also have "\<dots> = (?r + (?c + 1)) mod ?n" by (simp add: mod_add_left_eq add.assoc)
  finally have w': "(if wridx st + 1 = ?n then 0 else wridx st + 1) = (?r + (?c + 1)) mod ?n" .
  have pf: "push_frame st f =
      st\<lparr>buffers := (buffers st)[nat (wridx st) := f],
         wridx := (?r + (?c + 1)) mod ?n, buf_cnt := ?c + 1\<rparr>"
    using assms(2) by (simp add: push_frame_def w')
  have slots': "list_all (\<lambda>b. length b = frame_len) ((buffers st)[nat (wridx st) := f])"
    using slots assms(3) by (auto simp: list_all_iff dest: set_update_subset_insert [THEN subsetD])
  show "ring_ok (push_frame st f)"
    unfolding pf using n r c len slots' by (simp add: ring_ok_def)
  show "buf_cnt (push_frame st f) = buf_cnt st + 1"
    and "num_bufs (push_frame st f) = num_bufs st"
    and "audio_dev (push_frame st f) = audio_dev st"
    unfolding pf by simp_all
  have wn: "nat (wridx st) < length (buffers st)" using w0 len by simp
  have old: "(buffers st)[nat (wridx st) := f] ! nat ((?r + int k) mod ?n)
      = buffers st ! nat ((?r + int k) mod ?n)" if "k < nat ?c" for k
  proof -
    have "(?r + int k) mod ?n \<noteq> (?r + int (nat ?c)) mod ?n"
      using that c n by (intro ring_index_distinct) simp_all
    then have "(?r + int k) mod ?n \<noteq> wridx st" using c by (simp add: w)
    moreover have "0 \<le> (?r + int k) mod ?n" using n by simp
    ultimately have "nat ((?r + int k) mod ?n) \<noteq> nat (wridx st)"
      using w0 by (simp add: eq_nat_nat_iff)
    then show ?thesis by simp
  qed
  have new: "(buffers st)[nat (wridx st) := f] ! nat ((?r + int (nat ?c)) mod ?n) = f"
    using c wn by (simp add: w)
  have up: "[0..<nat (?c + 1)] = [0..<nat ?c] @ [nat ?c]"
    using c by (simp add: nat_add_distrib)
  show "queued (push_frame st f) = queued st @ [f]"
    unfolding pf queued_def using old new by (simp add: up)
qed


lemma callback_empty:
  assumes "audio_dev st \<noteq> 0" and "buf_cnt st = 0" and "length stream = frame_len"
  shows "audio_callback st stream expected_len = Inr (st, replicate frame_len 0)"
  using assms by (simp add: audio_callback_def memset_zero_region)

lemma callback_pop_ok:
  assumes "ring_ok st" and "audio_dev st \<noteq> 0" and "buf_cnt st \<noteq> 0"
    and "length stream = frame_len"
  obtains st' where "audio_callback st stream expected_len = Inr (st', hd (queued st))"
    and "ring_ok st'" and "queued st' = tl (queued st)"
    and "buf_cnt st' = buf_cnt st - 1" and "num_bufs st' = num_bufs st"
    and "audio_dev st' = audio_dev st"
proof -
  let ?n = "num_bufs st" and ?r = "rdidx st" and ?c = "buf_cnt st"
  from assms have n: "0 < ?n" and r: "0 \<le> ?r" "?r < ?n" and c: "0 < ?c" "?c \<le> ?n"
    and w: "wridx st = (?r + ?c) mod ?n" and len: "length (buffers st) = nat ?n"
    and slots: "list_all (\<lambda>b. length b = frame_len) (buffers st)"
    by (simp_all add: ring_ok_def)
  define st' where "st' = st\<lparr>rdidx := (?r + 1) mod ?n, buf_cnt := ?c - 1\<rparr>"
  have rn: "nat ?r < length (buffers st)" using r len by simp
  then have "buffers st ! nat ?r \<in> set (buffers st)" by simp
  then have fl: "length (buffers st ! nat ?r) = frame_len"
    using slots by (simp add: list_all_iff)
  have cb: "audio_callback st stream expected_len = Inr (st', buffers st ! nat ?r)"
    using assms(2,3,4) fl
    by (simp add: audio_callback_def memcpy_region st'_def wrap_next [OF r])
  obtain m where m: "nat ?c = Suc m" using c by (cases "nat ?c") simp_all
  have up: "[0..<nat ?c] = 0 # map Suc [0..<m]"
    unfolding m by (simp add: upt_conv_Cons map_Suc_upt del: upt_Suc)
  have hd: "hd (queued st) = buffers st ! nat ?r"
    unfolding queued_def up using r by (simp add: mod_pos_pos_trivial)
  have m': "nat (?c - 1) = m" using m by simp
  have idx: "((?r + 1) mod ?n + int k) mod ?n = (?r + int (Suc k)) mod ?n" for k
  proof -
    have "((?r + 1) mod ?n + int k) mod ?n = ((?r + 1) + int k) mod ?n"
      by (rule mod_add_left_eq)
    also have "(?r + 1) + int k = ?r + int (Suc k)" by simp
    finally show ?thesis .
  qed
  have tl: "queued st' = tl (queued st)"
    unfolding queued_def up by (simp add: st'_def m' idx comp_def)
  have "((?r + 1) mod ?n + (?c - 1)) mod ?n = ((?r + 1) + (?c - 1)) mod ?n"
    by (rule mod_add_left_eq)
  then have wr: "(?r + ?c) mod ?n = ((?r + 1) mod ?n + (?c - 1)) mod ?n"
    by simp
  have ok: "ring_ok st'"
    using n c len slots w wr by (simp add: ring_ok_def st'_def)
  show thesis
    by (rule that [of st']) (simp_all add: cb hd tl ok, simp_all add: st'_def)
qed


lemma length_queued: "length (queued st) = nat (buf_cnt st)"
  by (simp add: queued_def)

lemma pushes_ok:
  assumes "ring_ok st" and "buf_cnt st + int (length fs) \<le> num_bufs st"
    and "list_all (\<lambda>f. length f = frame_len) fs"
  shows "ring_ok (pushes st fs) \<and> queued (pushes st fs) = queued st @ fs \<and>
         buf_cnt (pushes st fs) = buf_cnt st + int (length fs) \<and>
         num_bufs (pushes st fs) = num_bufs st \<and>
         audio_dev (pushes st fs) = audio_dev st"
  using assms
proof (induction fs arbitrary: st)
  case Nil
  then show ?case by (simp add: pushes_def)
next
  case (Cons f fs)
  have av: "buf_available st" using Cons.prems(2) by (simp add: buf_available_def)
  have fl: "length f = frame_len" using Cons.prems(3) by simp
  note P = push_frame_ok [OF Cons.prems(1) av fl]
  have room: "buf_cnt (push_frame st f) + int (length fs) \<le> num_bufs (push_frame st f)"
    using Cons.prems(2) by (simp add: P)
  have rest: "list_all (\<lambda>f. length f = frame_len) fs" using Cons.prems(3) by simp
  have unf: "pushes st (f # fs) = pushes (push_frame st f) fs" by (simp add: pushes_def)
  show ?case unfolding unf using Cons.IH [OF P(1) room rest] by (simp add: P)
qed

lemma pushes_take_available:
  assumes "ring_ok st" and "buf_cnt st + int (length fs) \<le> num_bufs st"
    and "list_all (\<lambda>f. length f = frame_len) fs" and "k < length fs"
  shows "buf_available (pushes st (take k fs))"
proof -
  have room: "buf_cnt st + int (length (take k fs)) \<le> num_bufs st"
    using assms(2,4) by simp
  have fl: "list_all (\<lambda>f. length f = frame_len) (take k fs)"
    using assms(3) by (auto simp: list_all_iff dest: in_set_takeD)
  from pushes_ok [OF assms(1) room fl] assms(2,4) show ?thesis
    by (simp add: buf_available_def)
qed

lemma push_frame_full: "\<not> buf_available st \<Longrightarrow> push_frame st f = st"
  by (simp add: push_frame_def)

lemma callbacks_ok:
  assumes "ring_ok st" and "audio_dev st \<noteq> 0" and "int (length streams) \<le> buf_cnt st"
    and "list_all (\<lambda>s. length s = frame_len) streams"
  shows "fst (callbacks st streams) = take (length streams) (queued st) \<and>
         ring_ok (snd (callbacks st streams)) \<and>
         queued (snd (callbacks st streams)) = drop (length streams) (queued st) \<and>
         buf_cnt (snd (callbacks st streams)) = buf_cnt st - int (length streams) \<and>
         audio_dev (snd (callbacks st streams)) = audio_dev st"
  using assms
proof (induction streams arbitrary: st)
  case Nil
  then show ?case by simp
next
  case (Cons s ss)
  have ne: "buf_cnt st \<noteq> 0" using Cons.prems(3) by auto
  have sl: "length s = frame_len" using Cons.prems(4) by simp
  obtain st' where cb: "audio_callback st s expected_len = Inr (st', hd (queued st))"
    and ok: "ring_ok st'" and q: "queued st' = tl (queued st)"
    and c: "buf_cnt st' = buf_cnt st - 1" and d: "audio_dev st' = audio_dev st"
    by (rule callback_pop_ok [OF Cons.prems(1,2) ne sl])
  have d': "audio_dev st' \<noteq> 0" using d Cons.prems(2) by simp
  have room: "int (length ss) \<le> buf_cnt st'" using Cons.prems(3) c by simp
  have rest: "list_all (\<lambda>s. length s = frame_len) ss" using Cons.prems(4) by simp
  note I = Cons.IH [OF ok d' room rest]
  have qne: "queued st \<noteq> []"
    using Cons.prems(3) by (auto simp: length_queued simp flip: length_0_conv)
  then obtain a as where qa: "queued st = a # as" by (cases "queued st") auto
  obtain outs st'' where r: "callbacks st' ss = (outs, st'')"
    by (cases "callbacks st' ss") auto
  have unf: "callbacks st (s # ss) = (hd (queued st) # outs, st'')"
    by (simp add: cb r)
  show ?case
    unfolding unf using I by (simp add: r q c d qa)
qed


lemma ring_ok_opened: "0 < n \<Longrightarrow> ring_ok (opened n)"
  by (simp add: ring_ok_def opened_def list_all_iff)

text \<open>
  Claim C5, as stated: from an empty ring of \<open>N\<close> slots, after \<open>N - 1\<close> successful pushes
  the next push is refused. It fails for \<open>N = 3\<close>: after two pushes a slot is still
  available and the third push is stored.
\<close>

theorem full_after_capacity_minus_one_counterexample:
  "buf_cnt (opened 3) = 0 \<and> num_bufs (opened 3) = 3 \<and>
   buf_cnt (pushes (opened 3) [replicate frame_len 1, replicate frame_len 2]) = 2 \<and>
   buf_available (pushes (opened 3) [replicate frame_len 1, replicate frame_len 2]) \<and>
   buf_cnt (pushes (opened 3) [replicate frame_len 1, replicate frame_len 2, replicate frame_len 3]) = 3"
  by (simp add: pushes_def push_frame_def buf_available_def opened_def)

text \<open>
  Claim C5, amended: from an empty ring of \<open>N\<close> slots, \<open>N\<close> pushes in a row all find a slot
  available; after them the count equals \<open>N\<close> and the next push finds none (Full). The
  callback on an empty ring of an open session hands out zeros and leaves the state
  unchanged (Empty).
\<close>

theorem ring_full_after_capacity_pushes:
  assumes "ring_ok st" and "buf_cnt st = 0" and "length fs = nat (num_bufs st)"
    and "list_all (\<lambda>f. length f = frame_len) fs"
  shows "(\<forall>k < length fs. buf_available (pushes st (take k fs))) \<and>
         buf_cnt (pushes st fs) = num_bufs st \<and>
         \<not> buf_available (pushes st fs) \<and>
         (audio_dev st \<noteq> 0 \<and> length stream = frame_len \<longrightarrow>
            audio_callback st stream expected_len = Inr (st, replicate frame_len 0))"
proof -
  have n: "0 < num_bufs st" using assms(1) by (simp add: ring_ok_def)
  have room: "buf_cnt st + int (length fs) \<le> num_bufs st" using assms(2,3) n by simp
  note P = pushes_ok [OF assms(1) room assms(4)]
  have full: "buf_cnt (pushes st fs) = num_bufs st" using P assms(2,3) n by simp
  have "\<forall>k < length fs. buf_available (pushes st (take k fs))"
    using pushes_take_available [OF assms(1) room assms(4)] by blast
  moreover have "\<not> buf_available (pushes st fs)"
    using full P by (simp add: buf_available_def)
  ultimately show ?thesis using full assms(2) by (simp add: callback_empty)
qed

theorem ring_full_after_capacity_pushes_witness:
  "ring_ok (opened 3) \<and> buf_cnt (opened 3) = 0 \<and>
   length [replicate frame_len 1, replicate frame_len 2, replicate frame_len (3 :: sample)]
     = nat (num_bufs (opened 3)) \<and>
   list_all (\<lambda>f. length f = frame_len)
     [replicate frame_len 1, replicate frame_len 2, replicate frame_len (3 :: sample)] \<and>
   buf_available (pushes (opened 3) [replicate frame_len 1, replicate frame_len 2]) \<and>
   \<not> buf_available
       (pushes (opened 3) [replicate frame_len 1, replicate frame_len 2, replicate frame_len 3]) \<and>
   audio_callback (opened 3) (replicate frame_len 9) expected_len
     = Inr (opened 3, replicate frame_len 0)"
  using ring_full_after_capacity_pushes [of "opened 3"
      "[replicate frame_len 1, replicate frame_len 2, replicate frame_len 3]"
      "replicate frame_len 9"]
    ring_ok_opened [of 3]
  by (simp add: opened_def All_less_Suc)

text \<open>
  Claim C7: from an empty ring of \<open>N\<close> slots of an open session, \<open>N\<close> pushes all find a
  slot available; one more push finds none and leaves the state unchanged, its frame
  \<open>g\<close> being dropped; the next \<open>N\<close> callbacks hand out exactly the \<open>N\<close> pushed frames,
  oldest first; after them the ring is empty and the next callback hands out zeros.
\<close>

theorem overflow_drop_fifo:
  assumes "ring_ok st" and "audio_dev st \<noteq> 0" and "buf_cnt st = 0"
    and "length fs = nat (num_bufs st)" and "list_all (\<lambda>f. length f = frame_len) fs"
    and "length streams = nat (num_bufs st)"
    and "list_all (\<lambda>s. length s = frame_len) streams"
    and "length stream = frame_len"
  shows "(\<forall>k < length fs. buf_available (pushes st (take k fs))) \<and>
         \<not> buf_available (pushes st fs) \<and>
         push_frame (pushes st fs) g = pushes st fs \<and>
         fst (callbacks (push_frame (pushes st fs) g) streams) = fs \<and>
         buf_cnt (snd (callbacks (push_frame (pushes st fs) g) streams)) = 0 \<and>
         audio_callback (snd (callbacks (push_frame (pushes st fs) g) streams)) stream expected_len
           = Inr (snd (callbacks (push_frame (pushes st fs) g) streams), replicate frame_len 0)"
proof -
  have n: "0 < num_bufs st" using assms(1) by (simp add: ring_ok_def)
  have room: "buf_cnt st + int (length fs) \<le> num_bufs st" using assms(3,4) n by simp
  note P = pushes_ok [OF assms(1) room assms(5)]
  let ?p = "pushes st fs"
  have q0: "queued st = []" using assms(3) by (simp add: queued_def)
  have full: "buf_cnt ?p = num_bufs st" using P assms(3,4) n by simp
  have nav: "\<not> buf_available ?p" using full P by (simp add: buf_available_def)
  have drop: "push_frame ?p g = ?p" by (rule push_frame_full [OF nav])
  have ok: "ring_ok ?p" and dev: "audio_dev ?p \<noteq> 0" and q: "queued ?p = fs"
    using P assms(2) q0 by simp_all
  have cnt: "int (length streams) \<le> buf_cnt ?p" using full assms(6) n by simp
  note C = callbacks_ok [OF ok dev cnt assms(7)]
  let ?e = "snd (callbacks ?p streams)"
  have outs: "fst (callbacks ?p streams) = fs" using C q assms(4,6) by simp
  have empty: "buf_cnt ?e = 0" using C full assms(6) n by simp
  have dev': "audio_dev ?e \<noteq> 0" using C dev by simp
  have all: "\<forall>k < length fs. buf_available (pushes st (take k fs))"
    using pushes_take_available [OF assms(1) room assms(5)] by blast
  show ?thesis
    unfolding drop using all nav outs empty callback_empty [OF dev' empty assms(8)] by simp
qed

theorem overflow_drop_fifo_witness:
  "ring_ok (opened 3) \<and> audio_dev (opened 3) \<noteq> 0 \<and> buf_cnt (opened 3) = 0 \<and>
   nat (num_bufs (opened 3)) = 3 \<and>
   \<not> buf_available
       (pushes (opened 3) [replicate frame_len 1, replicate frame_len 2, replicate frame_len 3]) \<and>
   fst (callbacks
         (push_frame
           (pushes (opened 3) [replicate frame_len 1, replicate frame_len 2, replicate frame_len 3])
           (replicate frame_len 4))
         [replicate frame_len 9, replicate frame_len 9, replicate frame_len 9])
     = [replicate frame_len 1, replicate frame_len 2, replicate frame_len 3]"
proof -
  let ?fs = "[replicate frame_len 1, replicate frame_len 2, replicate frame_len (3 :: sample)]"
  let ?ss = "[replicate frame_len 9, replicate frame_len 9, replicate frame_len (9 :: sample)]"
  have h1: "ring_ok (opened 3)" by (rule ring_ok_opened) simp
  have h2: "audio_dev (opened 3) \<noteq> 0" and h3: "buf_cnt (opened 3) = 0"
    and n: "nat (num_bufs (opened 3)) = 3"
    by (simp_all add: opened_def)
  have h4: "length ?fs = nat (num_bufs (opened 3))" and h6: "length ?ss = nat (num_bufs (opened 3))"
    by (simp_all add: n)
  have h5: "list_all (\<lambda>f. length f = frame_len) ?fs"
    and h7: "list_all (\<lambda>s. length s = frame_len) ?ss"
    and h8: "length (replicate frame_len (9 :: sample)) = frame_len"
    by simp_all
  note T = overflow_drop_fifo [OF h1 h2 h3 h4 h5 h6 h7 h8, of "replicate frame_len 4"]
  show ?thesis
    using h1 h2 h3 n conjunct1 [OF conjunct2 [OF T]]
      conjunct1 [OF conjunct2 [OF conjunct2 [OF conjunct2 [OF T]]]]
    by (intro conjI)
qed

end
